theory Spec2Isabelle
  imports Main
begin

section \<open>URL plausibility check (\<^verbatim>\<open>is_plausible_url\<close>, lines 21-34)\<close>

text \<open>
  A Python \<^verbatim>\<open>str\<close> is modelled as an Isabelle \<^typ>\<open>string\<close>; a character stands
  for the code point of the same number (0 to 255).  The source compiles a regular
  expression with \<^verbatim>\<open>re.IGNORECASE\<close> and returns \<^verbatim>\<open>bool(pattern.match(url))\<close>.
  The expression is kept as a syntax tree and run by a backtracking matcher, so that
  the model reads like the pattern it embeds.
\<close>

definition newline :: char where
  "newline = CHR 0x0A"

definition is_upper :: "char \<Rightarrow> bool" where
  "is_upper c = (65 \<le> (of_char c :: nat) \<and> (of_char c :: nat) \<le> 90)"

text \<open>Case folding as \<^verbatim>\<open>re.IGNORECASE\<close> applies it to the letters of the pattern.\<close>

definition lower :: "char \<Rightarrow> char" where
  "lower c = (if is_upper c then char_of ((of_char c :: nat) + 32) else c)"

text \<open>
  \<^verbatim>\<open>\w\<close> on a \<^verbatim>\<open>str\<close> pattern: the ASCII letters, digits and the underscore,
  and the code points above 127 that the Unicode database classes as alphanumeric.
\<close>

definition is_word :: "char \<Rightarrow> bool" where
  "is_word c =
     (let n = (of_char c :: nat) in
        (48 \<le> n \<and> n \<le> 57) \<or> (65 \<le> n \<and> n \<le> 90) \<or> n = 95 \<or> (97 \<le> n \<and> n \<le> 122) \<or>
        n = 170 \<or> n = 178 \<or> n = 179 \<or> n = 181 \<or> n = 185 \<or> n = 186 \<or>
        (188 \<le> n \<and> n \<le> 190) \<or> (192 \<le> n \<and> n \<le> 214) \<or>
        (216 \<le> n \<and> n \<le> 246) \<or> (248 \<le> n \<and> n \<le> 255))"

text \<open>A member of a bracketed character class: the category \<^verbatim>\<open>\w\<close> or one character.\<close>

datatype class_item = Word | Ch char

fun item_matches :: "class_item \<Rightarrow> char \<Rightarrow> bool" where
  "item_matches Word c = is_word c"
| "item_matches (Ch l) c = (lower c = lower l)"

definition in_class :: "class_item list \<Rightarrow> char \<Rightarrow> bool" where
  "in_class items c = list_ex (\<lambda>it. item_matches it c) items"

datatype regex =
    Eps
  | Lit char
  | Class "class_item list"
  | Bol
  | Eol
  | Seq regex regex
  | Opt regex
  | Star regex

text \<open>\<^verbatim>\<open>r+\<close> is one \<open>r\<close> followed by \<^verbatim>\<open>r*\<close>.\<close>

definition Plus :: "regex \<Rightarrow> regex" where
  "Plus r = Seq r (Star r)"

fun seqs :: "regex list \<Rightarrow> regex" where
  "seqs [] = Eps"
| "seqs [r] = r"
| "seqs (r # rs) = Seq r (seqs rs)"

definition lits :: "string \<Rightarrow> regex" where
  "lits s = seqs (map Lit s)"

text \<open>
  The matcher.  \<open>rmatch n r s\<close> lists what can remain of the input \<open>s\<close> after \<open>r\<close> has
  matched a prefix of it; \<open>n\<close> is the length of the whole subject, so that the position
  is the start exactly when \<open>length s = n\<close>.  Without \<^verbatim>\<open>re.MULTILINE\<close>, \<^verbatim>\<open>^\<close> holds at
  the start only, and \<^verbatim>\<open>$\<close> holds at the end of the subject and also just before a
  newline that is its last character.  A repetition goes round again only after an
  iteration that consumed input.
\<close>

function rmatch :: "nat \<Rightarrow> regex \<Rightarrow> string \<Rightarrow> string list" where
  "rmatch n Eps s = [s]"
| "rmatch n (Lit l) s =
     (case s of [] \<Rightarrow> [] | c # cs \<Rightarrow> if lower c = lower l then [cs] else [])"
| "rmatch n (Class items) s =
     (case s of [] \<Rightarrow> [] | c # cs \<Rightarrow> if in_class items c then [cs] else [])"
| "rmatch n Bol s = (if length s = n then [s] else [])"
| "rmatch n Eol s = (if s = [] \<or> s = [newline] then [s] else [])"
| "rmatch n (Seq a b) s = concat (map (rmatch n b) (rmatch n a s))"
| "rmatch n (Opt a) s = rmatch n a s @ [s]"
| "rmatch n (Star a) s =
     concat (map (rmatch n (Star a)) (filter (\<lambda>t. length t < length s) (rmatch n a s))) @ [s]"
  by pat_completeness auto
termination
  by (relation "measures [\<lambda>(n, r, s). size r, \<lambda>(n, r, s). length s]") auto

text \<open>\<^verbatim>\<open>bool(pattern.match(s))\<close>: some way of matching a prefix of \<open>s\<close> exists.\<close>

definition re_match :: "regex \<Rightarrow> string \<Rightarrow> bool" where
  "re_match r s = (rmatch (length s) r s \<noteq> [])"

text \<open>The two character classes of the pattern, in the order the source writes them.\<close>

definition domain_class :: "class_item list" where
  "domain_class = [Word, Ch (CHR ''.''), Ch (CHR ''-'')]"

definition path_class :: "class_item list" where
  "path_class =
     Ch (CHR ''/'') # Word # map Ch ''-._~:?#[]@!$&'' @ [Ch (CHR 0x27)] @ map Ch ''()*+,;=''"

definition pattern :: regex where
  "pattern =
     seqs [Bol,
           seqs [lits ''http'', Opt (Lit (CHR ''s'')), lits ''://''],
           Plus (Class domain_class),
           Plus (Seq (Lit (CHR ''.'')) (Plus (Class domain_class))),
           Star (Class path_class),
           Eol]"

definition is_plausible_url :: "string \<Rightarrow> bool" where
  "is_plausible_url url = re_match pattern url"

section \<open>Images, exceptions and the filesystem\<close>

text \<open>
  An exception is its class name and the text \<^verbatim>\<open>str(exc)\<close> gives.  The model holds
  the exceptions that derive from \<^verbatim>\<open>Exception\<close>, the ones an \<^verbatim>\<open>except Exception\<close>
  clause catches; a function that may raise returns a sum \<open>exn + 'a\<close>.
\<close>

datatype exn = Exn (exn_class: string) (exn_str: string)

text \<open>
  A raster image as the program sees one: its mode, its size (width, height) and its
  pixels, each a list of band values.
\<close>

type_synonym pixel = "nat list"

record image =
  im_mode :: string
  im_size :: "nat \<times> nat"
  im_pixels :: "nat \<times> nat \<Rightarrow> pixel"

text \<open>
  What the encoder hands over: the \<^verbatim>\<open>PilImage\<close> wrapper, whose \<^verbatim>\<open>get_image()\<close>
  gives the image it holds, or a bare image, which has no such method.
\<close>

datatype img_wrapped = PilImage image | RawImage image

fun get_image :: "img_wrapped \<Rightarrow> exn + image" where
  "get_image (PilImage im) = Inr im"
| "get_image (RawImage im) =
     Inl (Exn ''AttributeError'' ''object has no attribute get_image'')"

text \<open>The value itself read as an image; the wrapper passes attribute access on.\<close>

fun as_image :: "img_wrapped \<Rightarrow> image" where
  "as_image (PilImage im) = im"
| "as_image (RawImage im) = im"

type_synonym font = string

text \<open>
  A path is its anchor (absolute or not) and its components.  \<open>Path\<close> reads one from
  a string, dropping empty components and \<^verbatim>\<open>.\<close> as \<^verbatim>\<open>pathlib\<close> does.
\<close>

datatype path = PurePath (absolute: bool) (parts: "string list")

fun split_on :: "char \<Rightarrow> string \<Rightarrow> string list" where
  "split_on d [] = [[]]"
| "split_on d (c # cs) =
     (if c = d then [] # split_on d cs
      else (case split_on d cs of [] \<Rightarrow> [[c]] | w # ws \<Rightarrow> (c # w) # ws))"

definition Path :: "string \<Rightarrow> path" where
  "Path s =
     PurePath (s \<noteq> [] \<and> hd s = CHR ''/'')
       (filter (\<lambda>w. w \<noteq> [] \<and> w \<noteq> ''.'') (split_on (CHR ''/'') s))"

definition parent :: "path \<Rightarrow> path" where
  "parent p = PurePath (absolute p) (butlast (parts p))"

fun join_parts :: "string list \<Rightarrow> string" where
  "join_parts [] = []"
| "join_parts [w] = w"
| "join_parts (w # ws) = w @ ''/'' @ join_parts ws"

definition str_path :: "path \<Rightarrow> string" where
  "str_path p =
     (if absolute p then ''/'' @ join_parts (parts p)
      else if parts p = [] then ''.'' else join_parts (parts p))"

text \<open>The directory itself and every directory above it.\<close>

definition ancestors :: "path \<Rightarrow> path list" where
  "ancestors p =
     map (\<lambda>k. PurePath (absolute p) (take k (parts p))) [0 ..< Suc (length (parts p))]"

text \<open>The filesystem: the directories that exist and the image each file holds.\<close>

record filesystem =
  dirs :: "path set"
  files :: "path \<rightharpoonup> image"

section \<open>The external collaborators\<close>

text \<open>
  The program calls \<^verbatim>\<open>argparse\<close>, the \<^verbatim>\<open>qrcode\<close> encoder, the imaging library and
  the operating system.  What they compute is not part of the repository, so the model
  takes it as a parameter: one record of functions, each returning an exception where
  the call can raise.
  \<^item> \<open>parse_args\<close>: the argument parser; it exits by itself on a malformed vector.
  \<^item> \<open>qr_encode\<close>: lines 69-79, from \<^verbatim>\<open>QRCode(...)\<close> to \<^verbatim>\<open>make_image\<close>.
  \<^item> \<open>convert_pixels\<close>: the pixel translation of \<^verbatim>\<open>Image.convert\<close>.
  \<^item> \<open>load_default\<close>, \<open>textbbox\<close>, \<open>textsize\<close>, \<open>draw_text\<close>: the font and text
    primitives; \<open>draw_text\<close> gives the pixels of the canvas after drawing.
  \<^item> \<open>mkdir_error\<close>, \<open>save_error\<close>: whether the operating system refuses the
    directory creation or the write, and with which exception.
\<close>

record args =
  a_url :: string
  a_out :: string
  a_caption :: "string option"
  a_box_size :: int
  a_border :: int

text \<open>The parser leaving the process: exit status, lines for standard output, lines for the error stream.\<close>

datatype parser_exit = ParserExit int "string list" "string list"

record lib =
  parse_args :: "string list \<Rightarrow> parser_exit + args"
  qr_encode :: "string \<Rightarrow> int \<Rightarrow> int \<Rightarrow> exn + img_wrapped"
  convert_pixels :: "string \<Rightarrow> string \<Rightarrow> (nat \<times> nat \<Rightarrow> pixel) \<Rightarrow> (nat \<times> nat \<Rightarrow> pixel)"
  load_default :: "exn + font"
  textbbox :: "int \<times> int \<Rightarrow> string \<Rightarrow> font option \<Rightarrow> exn + (int \<times> int \<times> int \<times> int)"
  textsize :: "string \<Rightarrow> font option \<Rightarrow> exn + (int \<times> int)"
  draw_text :: "image \<Rightarrow> int \<times> int \<Rightarrow> string \<Rightarrow> font option \<Rightarrow> exn + (nat \<times> nat \<Rightarrow> pixel)"
  mkdir_error :: "filesystem \<Rightarrow> path \<Rightarrow> exn option"
  save_error :: "filesystem \<Rightarrow> path \<Rightarrow> image \<Rightarrow> exn option"

subsection \<open>Imaging primitives\<close>

text \<open>\<^verbatim>\<open>im.convert(mode)\<close>: a copy in the requested mode, of the same size.\<close>

definition convert :: "lib \<Rightarrow> image \<Rightarrow> string \<Rightarrow> image" where
  "convert L im m =
     im\<lparr>im_mode := m, im_pixels := convert_pixels L (im_mode im) m (im_pixels im)\<rparr>"

definition white :: pixel where
  "white = [255, 255, 255]"

text \<open>\<^verbatim>\<open>Image.new(mode, size, color)\<close>: a canvas of that size, every pixel the colour.\<close>

definition Image_new :: "string \<Rightarrow> nat \<times> nat \<Rightarrow> pixel \<Rightarrow> image" where
  "Image_new m sz colour = \<lparr>im_mode = m, im_size = sz, im_pixels = (\<lambda>xy. colour)\<rparr>"

text \<open>\<^verbatim>\<open>canvas.paste(im, box)\<close>: the pixels of \<open>im\<close> replace those of the canvas from \<open>box\<close> on.\<close>

definition paste :: "image \<Rightarrow> image \<Rightarrow> nat \<times> nat \<Rightarrow> image" where
  "paste canvas im box =
     canvas\<lparr>im_pixels :=
       (\<lambda>(x, y).
          if fst box \<le> x \<and> x < fst box + fst (im_size im) \<and>
             snd box \<le> y \<and> y < snd box + snd (im_size im)
          then im_pixels im (x - fst box, y - snd box)
          else im_pixels canvas (x, y))\<rparr>"

subsection \<open>Filesystem primitives\<close>

text \<open>
  \<^verbatim>\<open>p.mkdir(parents=True, exist_ok=True)\<close>: unless the system refuses, \<open>p\<close> and the
  directories above it exist afterwards; a refused call is taken to leave the tree as
  it was.  \<^verbatim>\<open>im.save(p)\<close> writes the whole image or, when refused, nothing.
\<close>

definition mkdir_parents :: "lib \<Rightarrow> filesystem \<Rightarrow> path \<Rightarrow> exn + filesystem" where
  "mkdir_parents L fs p =
     (case mkdir_error L fs p of
        Some e \<Rightarrow> Inl e
      | None \<Rightarrow> Inr (fs\<lparr>dirs := dirs fs \<union> set (ancestors p)\<rparr>))"

definition save :: "lib \<Rightarrow> filesystem \<Rightarrow> path \<Rightarrow> image \<Rightarrow> exn + filesystem" where
  "save L fs p im =
     (case save_error L fs p im of
        Some e \<Rightarrow> Inl e
      | None \<Rightarrow> Inr (fs\<lparr>files := (files fs)(p \<mapsto> im)\<rparr>))"

section \<open>Image normalizer (\<^verbatim>\<open>_ensure_pil_image\<close>, lines 37-52)\<close>

definition ensure_pil_image :: "lib \<Rightarrow> img_wrapped \<Rightarrow> image" where
  "ensure_pil_image L img_wrapped =
     (let pil_img = (case get_image img_wrapped of
                       Inr im \<Rightarrow> im
                     | Inl e \<Rightarrow> as_image img_wrapped)
      in if im_mode pil_img \<noteq> ''RGB'' then convert L pil_img ''RGB'' else pil_img)"

section \<open>Generation (\<^verbatim>\<open>generate_qr\<close>, lines 55-134)\<close>

text \<open>
  Lines 86-88 and 131-134: create the parent directories, save, return the path.  The
  filesystem is returned with the result, also when an exception ends the call.
\<close>

definition save_to :: "lib \<Rightarrow> filesystem \<Rightarrow> path \<Rightarrow> image \<Rightarrow> (exn + path) \<times> filesystem" where
  "save_to L fs out_path im =
     (case mkdir_parents L fs (parent out_path) of
        Inl e \<Rightarrow> (Inl e, fs)
      | Inr fs1 \<Rightarrow>
          (case save L fs1 out_path im of
             Inl e \<Rightarrow> (Inl e, fs1)
           | Inr fs2 \<Rightarrow> (Inr out_path, fs2)))"

text \<open>Lines 103-107: the default font, or no font when loading it raises.\<close>

definition load_font :: "lib \<Rightarrow> font option" where
  "load_font L = (case load_default L of Inr f \<Rightarrow> Some f | Inl e \<Rightarrow> None)"

text \<open>Lines 112-121: the nested \<^verbatim>\<open>try\<close> blocks that measure the caption.\<close>

definition measure_text :: "lib \<Rightarrow> string \<Rightarrow> font option \<Rightarrow> int \<times> int" where
  "measure_text L text font =
     (case textbbox L (0, 0) text font of
        Inr (x0, y0, x1, y1) \<Rightarrow> (x1 - x0, y1 - y0)
      | Inl e \<Rightarrow>
          (case textsize L text font of
             Inr (text_width, text_height) \<Rightarrow> (text_width, text_height)
           | Inl e' \<Rightarrow> (int (length text) * 6, 12)))"

text \<open>Lines 91-128: the canvas with the matrix image pasted and the caption drawn.\<close>

definition compose_caption :: "lib \<Rightarrow> image \<Rightarrow> string \<Rightarrow> exn + image" where
  "compose_caption L qr_img text =
     (let (qr_width, qr_height) = im_size qr_img;
          draw_margin = 16;
          caption_height = 40;
          total_height = qr_height + caption_height + draw_margin * 2;
          canvas = paste (Image_new ''RGB'' (qr_width, total_height) white) qr_img (0, 0);
          font = load_font L;
          (text_width, text_height) = measure_text L text font;
          x = (int qr_width - text_width) div 2;
          y = int (qr_height + draw_margin)
      in case draw_text L canvas (x, y) text font of
           Inl e \<Rightarrow> Inl e
         | Inr px \<Rightarrow> Inr (canvas\<lparr>im_pixels := px\<rparr>))"

text \<open>The truth value Python gives an optional string: \<^verbatim>\<open>None\<close> and \<^verbatim>\<open>""\<close> are false.\<close>

definition truthy :: "string option \<Rightarrow> bool" where
  "truthy c = (c \<noteq> None \<and> c \<noteq> Some [])"

definition generate_qr ::
  "lib \<Rightarrow> string \<Rightarrow> path \<Rightarrow> int \<Rightarrow> int \<Rightarrow> string option \<Rightarrow> filesystem \<Rightarrow> (exn + path) \<times> filesystem"
where
  "generate_qr L url out_path box_size border caption fs =
     (case qr_encode L url box_size border of
        Inl e \<Rightarrow> (Inl e, fs)
      | Inr img_wrapped \<Rightarrow>
          let qr_img = ensure_pil_image L img_wrapped in
          (case (if truthy caption then caption else None) of
             None \<Rightarrow> save_to L fs out_path qr_img
           | Some text \<Rightarrow>
               (case compose_caption L qr_img text of
                  Inl e \<Rightarrow> (Inl e, fs)
                | Inr canvas \<Rightarrow> save_to L fs out_path canvas)))"

section \<open>Command line driver (\<^verbatim>\<open>main\<close>, lines 137-195)\<close>

record world =
  stdout :: "string list"
  stderr :: "string list"
  disk :: filesystem

text \<open>\<^verbatim>\<open>print\<close> writes one line to standard output.\<close>

definition print :: "world \<Rightarrow> string \<Rightarrow> world" where
  "print w line = w\<lparr>stdout := stdout w @ [line]\<rparr>"

text \<open>The defaults the parser is given for the optional flags.\<close>

definition default_args :: "string \<Rightarrow> args" where
  "default_args u =
     \<lparr>a_url = u, a_out = ''qrs/qr.png'', a_caption = None, a_box_size = 10, a_border = 4\<rparr>"

text \<open>How a call of \<open>main\<close> ends: it returns a status, or the parser left the process.\<close>

datatype outcome = Return int | SystemExit int

definition main :: "lib \<Rightarrow> string list \<Rightarrow> world \<Rightarrow> outcome \<times> world" where
  "main L argv w =
     (case parse_args L argv of
        Inl (ParserExit status out_lines err_lines) \<Rightarrow>
          (SystemExit status, w\<lparr>stdout := stdout w @ out_lines, stderr := stderr w @ err_lines\<rparr>)
      | Inr a \<Rightarrow>
          if \<not> is_plausible_url (a_url a)
          then (Return 2,
                print w (''[ERROR] The provided string does not look like a valid http(s) URL: ''
                         @ a_url a))
          else
            (case generate_qr L (a_url a) (Path (a_out a)) (a_box_size a) (a_border a)
                    (a_caption a) (disk w) of
               (Inl exc, fs') \<Rightarrow>
                 (Return 1, print (w\<lparr>disk := fs'\<rparr>) (''[ERROR] Failed to generate QR: '' @ exn_str exc))
             | (Inr saved_path, fs') \<Rightarrow>
                 (Return 0, print (w\<lparr>disk := fs'\<rparr>) (''[OK] QR code saved to: '' @ str_path saved_path))))"

section \<open>Concrete collaborators\<close>

text \<open>
  One instance of the external collaborators, on which the model is run: a parser for
  the vectors \<^verbatim>\<open>--url U\<close>, \<^verbatim>\<open>--url U --caption C\<close> and \<^verbatim>\<open>--url U --out O\<close>, an
  encoder that renders a bilevel square of 25 modules, text primitives that give six
  pixels to a character, and a system that refuses directories under \<^verbatim>\<open>readonly\<close>.
\<close>

definition usage_exit :: parser_exit where
  "usage_exit = ParserExit 2 [] [''usage: qr_generator.py [-h] --url URL'']"

fun example_parse_args :: "string list \<Rightarrow> parser_exit + args" where
  "example_parse_args [k, u] =
     (if k = ''--url'' then Inr (default_args u) else Inl usage_exit)"
| "example_parse_args [k, u, k', v] =
     (if k = ''--url'' \<and> k' = ''--caption'' then Inr ((default_args u)\<lparr>a_caption := Some v\<rparr>)
      else if k = ''--url'' \<and> k' = ''--out'' then Inr ((default_args u)\<lparr>a_out := v\<rparr>)
      else Inl usage_exit)"
| "example_parse_args argv = Inl usage_exit"

definition example_encode :: "string \<Rightarrow> int \<Rightarrow> int \<Rightarrow> exn + img_wrapped" where
  "example_encode u b bd =
     (if b \<le> 0 then Inl (Exn ''ValueError'' ''Invalid box size'')
      else if bd < 0 then Inl (Exn ''ValueError'' ''Invalid border value'')
      else Inr (PilImage \<lparr>im_mode = ''1'',
                          im_size = (nat ((25 + 2 * bd) * b), nat ((25 + 2 * bd) * b)),
                          im_pixels = (\<lambda>xy. [255])\<rparr>))"

definition example_lib :: lib where
  "example_lib =
     \<lparr>parse_args = example_parse_args,
      qr_encode = example_encode,
      convert_pixels = (\<lambda>m m' px xy. if px xy = [255] then white else [0, 0, 0]),
      load_default = Inr ''default'',
      textbbox = (\<lambda>xy t f. Inr (fst xy, snd xy, fst xy + 6 * int (length t), snd xy + 11)),
      textsize = (\<lambda>t f. Inr (6 * int (length t), 11)),
      draw_text = (\<lambda>canvas xy t f. Inr (im_pixels canvas)),
      mkdir_error = (\<lambda>fs p. if take 1 (parts p) = [''readonly'']
                             then Some (Exn ''PermissionError'' ''Permission denied'')
                             else None),
      save_error = (\<lambda>fs p im. None)\<rparr>"

text \<open>The same collaborators with a font loader and both measurements that raise.\<close>

definition degraded_lib :: lib where
  "degraded_lib =
     example_lib\<lparr>load_default := Inl (Exn ''OSError'' ''cannot open resource''),
                 textbbox := (\<lambda>xy t f. Inl (Exn ''AttributeError'' ''textbbox'')),
                 textsize := (\<lambda>t f. Inl (Exn ''AttributeError'' ''textsize''))\<rparr>"

text \<open>The same collaborators with a text drawing primitive that raises.\<close>

definition failing_draw_lib :: lib where
  "failing_draw_lib =
     example_lib\<lparr>draw_text := (\<lambda>canvas xy t f. Inl (Exn ''ValueError'' ''cannot draw''))\<rparr>"

definition empty_fs :: filesystem where
  "empty_fs = \<lparr>dirs = {PurePath False []}, files = Map.empty\<rparr>"

definition world0 :: world where
  "world0 = \<lparr>stdout = [], stderr = [], disk = empty_fs\<rparr>"


text \<open>The image the example encoder renders at box size 10 and border 4.\<close>

definition example_matrix :: image where
  "example_matrix = \<lparr>im_mode = ''1'', im_size = (330, 330), im_pixels = (\<lambda>xy. [255])\<rparr>"

section \<open>The plausibility check as the specification words it\<close>

text \<open>
  The specification describes the accepted strings by their shape: \<^verbatim>\<open>http://\<close> or
  \<^verbatim>\<open>https://\<close> in any letter case, then a domain-like segment (a run of word
  characters, dots and dashes, followed by one or more groups of a dot and such a run),
  then zero or more characters of the safe set, and nothing else.  This second
  definition follows those words; it is compared with \<open>is_plausible_url\<close>, which
  follows the source.
\<close>

definition domain_like :: "string \<Rightarrow> bool" where
  "domain_like d =
     (\<exists>a bs. d = a @ concat (map (\<lambda>b. CHR ''.'' # b) bs) \<and> a \<noteq> [] \<and> bs \<noteq> [] \<and>
        list_all (in_class domain_class) a \<and>
        list_all (\<lambda>b. b \<noteq> [] \<and> list_all (in_class domain_class) b) bs)"

definition spec_plausible_url :: "string \<Rightarrow> bool" where
  "spec_plausible_url s =
     (\<exists>scheme dom rest. s = scheme @ dom @ rest \<and>
        (map lower scheme = ''http://'' \<or> map lower scheme = ''https://'') \<and>
        domain_like dom \<and> list_all (in_class path_class) rest)"

section \<open>The language of a pattern\<close>

text \<open>
  The strings a pattern without anchors matches, given directly; a repetition is a
  sequence of non-empty matches of its body.  The matcher is proved against it below.
\<close>

inductive star_of :: "(string \<Rightarrow> bool) \<Rightarrow> string \<Rightarrow> bool" for P where
  star_nil: "star_of P []"
| star_step: "P u \<Longrightarrow> u \<noteq> [] \<Longrightarrow> star_of P v \<Longrightarrow> star_of P (u @ v)"

primrec lang :: "regex \<Rightarrow> string \<Rightarrow> bool" where
  "lang Eps u = (u = [])"
| "lang (Lit l) u = (\<exists>c. u = [c] \<and> lower c = lower l)"
| "lang (Class items) u = (\<exists>c. u = [c] \<and> in_class items c)"
| "lang Bol u = False"
| "lang Eol u = False"
| "lang (Seq a b) u = (\<exists>v w. u = v @ w \<and> lang a v \<and> lang b w)"
| "lang (Opt a) u = (u = [] \<or> lang a u)"
| "lang (Star a) u = star_of (lang a) u"

primrec anchor_free :: "regex \<Rightarrow> bool" where
  "anchor_free Eps = True"
| "anchor_free (Lit l) = True"
| "anchor_free (Class items) = True"
| "anchor_free Bol = False"
| "anchor_free Eol = False"
| "anchor_free (Seq a b) = (anchor_free a \<and> anchor_free b)"
| "anchor_free (Opt a) = anchor_free a"
| "anchor_free (Star a) = anchor_free a"

text \<open>The pattern of the source between its two anchors.\<close>

definition scheme_group :: regex where
  "scheme_group = seqs [lits ''http'', Opt (Lit (CHR ''s'')), lits ''://'']"

definition body :: regex where
  "body = seqs [scheme_group,
                Plus (Class domain_class),
                Plus (Seq (Lit (CHR ''.'')) (Plus (Class domain_class))),
                Star (Class path_class)]"

section \<open>Auxiliary facts\<close>

lemmas run_defs =
  generate_qr_def save_to_def mkdir_parents_def save_def compose_caption_def
  measure_text_def load_font_def ensure_pil_image_def convert_def paste_def Image_new_def
  truthy_def example_lib_def example_encode_def degraded_lib_def failing_draw_lib_def
  Path_def parent_def ancestors_def empty_fs_def Let_def

lemma save_to_result:
  "save_to L fs p im = (r, fs') \<Longrightarrow>
     (case r of Inl e \<Rightarrow> files fs' = files fs
              | Inr q \<Rightarrow> q = p \<and> files fs' = (files fs)(p \<mapsto> im))"
  by (auto simp: save_to_def mkdir_parents_def save_def split: option.splits sum.splits)

lemma ensure_pil_image_size: "im_size (ensure_pil_image L w) = im_size (as_image w)"
  by (cases w) (simp_all add: ensure_pil_image_def convert_def Let_def)


lemma compose_caption_size:
  "compose_caption L q t = Inr im \<Longrightarrow>
     im_size im = (fst (im_size q), snd (im_size q) + 72) \<and> im_mode im = ''RGB''"
  by (auto simp: compose_caption_def Let_def paste_def Image_new_def split: prod.splits sum.splits)

lemma generate_qr_plain_result:
  assumes "generate_qr L url p b bd None fs = (Inr q, fs')"
  shows "\<exists>w. qr_encode L url b bd = Inr w \<and> q = p \<and>
             files fs' = (files fs)(p \<mapsto> ensure_pil_image L w)"
proof (cases "qr_encode L url b bd")
  case (Inl e)
  with assms show ?thesis by (simp add: generate_qr_def)
next
  case (Inr w)
  with assms have "save_to L fs p (ensure_pil_image L w) = (Inr q, fs')"
    by (simp add: generate_qr_def truthy_def)
  from save_to_result [OF this] Inr show ?thesis
    by simp
qed


lemma example_url_plausible: "is_plausible_url ''https://example.com/a''"
  by code_simp

lemma not_a_url_implausible: "\<not> is_plausible_url ''not-a-url''"
  by code_simp

lemma example_run_plain:
  "fst (generate_qr example_lib ''https://example.com/a'' (Path ''qrs/qr.png'') 10 4 None fs)
     = Inr (Path ''qrs/qr.png'')"
  by (simp add: run_defs)

lemma example_run_caption:
  "fst (generate_qr example_lib ''https://example.com/a'' (Path ''qrs/qr.png'') 10 4 (Some ''hello'') fs)
     = Inr (Path ''qrs/qr.png'')"
  by (simp add: run_defs)

lemma example_encode_matrix:
  "example_encode u 10 4 = Inr (PilImage example_matrix)"
  by (simp add: example_encode_def example_matrix_def)

lemma in_class_newline: "\<not> in_class path_class newline" "\<not> in_class domain_class newline"
  by (simp_all add: in_class_def path_class_def domain_class_def newline_def is_word_def
        lower_def is_upper_def)

lemma domain_like_last:
  assumes "domain_like d"
  shows "d \<noteq> [] \<and> in_class domain_class (last d)"
proof -
  from assms obtain a bs where d: "d = a @ concat (map (\<lambda>b. CHR ''.'' # b) bs)" and "bs \<noteq> []"
    and bs: "list_all (\<lambda>b. b \<noteq> [] \<and> list_all (in_class domain_class) b) bs"
    unfolding domain_like_def by blast
  from \<open>bs \<noteq> []\<close> obtain bs' b where sn: "bs = bs' @ [b]"
    by (metis rev_exhaust)
  with bs have b: "b \<noteq> []" "list_all (in_class domain_class) b" by simp_all
  from d sn have "d = (a @ concat (map (\<lambda>b. CHR ''.'' # b) bs') @ [CHR ''.'']) @ b" by simp
  with b show ?thesis by (simp add: list_all_iff)
qed

lemma spec_plausible_last:
  assumes "spec_plausible_url s"
  shows "s \<noteq> [] \<and> last s \<noteq> newline"
proof -
  from assms obtain scheme dom rest where s: "s = scheme @ dom @ rest" and dl: "domain_like dom"
    and r: "list_all (in_class path_class) rest"
    unfolding spec_plausible_url_def by blast
  from domain_like_last [OF dl] have dn: "dom \<noteq> []" and dlast: "in_class domain_class (last dom)"
    by simp_all
  show ?thesis
  proof (cases "rest = []")
    case True
    with s dn dlast in_class_newline(2) show ?thesis by auto
  next
    case False
    with r have "in_class path_class (last rest)" by (simp add: list_all_iff)
    with s False in_class_newline(1) show ?thesis by auto
  qed
qed

section \<open>The matcher and the language\<close>

text \<open>
  The equation of the repetition rewrites its own right-hand side, so it leaves the
  simplifier's rules; it is unfolded where needed.
\<close>

declare rmatch.simps(8) [simp del]

lemma rmatch_lang:
  "anchor_free r \<Longrightarrow> set (rmatch n r s) = {t. \<exists>u. s = u @ t \<and> lang r u}"
proof (induction n r s rule: rmatch.induct)
  case (1 n s)
  then show ?case by auto
next
  case (2 n l s)
  then show ?case by (cases s) auto
next
  case (3 n items s)
  then show ?case by (cases s) auto
next
  case (4 n s)
  then show ?case by simp
next
  case (5 n s)
  then show ?case by simp
next
  case (6 n a b s)
  from 6 have A: "set (rmatch n a s) = {t. \<exists>u. s = u @ t \<and> lang a u}"
    and B: "\<And>x. x \<in> set (rmatch n a s) \<Longrightarrow> set (rmatch n b x) = {t. \<exists>u. x = u @ t \<and> lang b u}"
    by simp_all
  show ?case
  proof (intro set_eqI iffI)
    fix t assume "t \<in> set (rmatch n (Seq a b) s)"
    then obtain x where x: "x \<in> set (rmatch n a s)" and t: "t \<in> set (rmatch n b x)" by auto
    from x A obtain u where "s = u @ x" "lang a u" by auto
    moreover from t B [OF x] obtain v where "x = v @ t" "lang b v" by auto
    ultimately have "s = (u @ v) @ t \<and> lang (Seq a b) (u @ v)" by auto
    then show "t \<in> {t. \<exists>u. s = u @ t \<and> lang (Seq a b) u}" by blast
  next
    fix t assume "t \<in> {t. \<exists>u. s = u @ t \<and> lang (Seq a b) u}"
    then obtain v w where s: "s = (v @ w) @ t" and v: "lang a v" and w: "lang b w" by auto
    from s v A have x: "w @ t \<in> set (rmatch n a s)" by auto
    from B [OF x] w have "t \<in> set (rmatch n b (w @ t))" by auto
    with x show "t \<in> set (rmatch n (Seq a b) s)" by auto
  qed
next
  case (7 n a s)
  then show ?case by auto
next
  case (8 n a s)
  then have A: "set (rmatch n a s) = {t. \<exists>u. s = u @ t \<and> lang a u}"
    and B: "\<And>x. x \<in> set (rmatch n a s) \<Longrightarrow> length x < length s \<Longrightarrow>
              set (rmatch n (Star a) x) = {t. \<exists>u. x = u @ t \<and> lang (Star a) u}"
    by simp_all
  have unfold: "set (rmatch n (Star a) s) =
      insert s (\<Union>x \<in> {x \<in> set (rmatch n a s). length x < length s}. set (rmatch n (Star a) x))"
    by (subst rmatch.simps(8)) auto
  show ?case
  proof (intro set_eqI iffI)
    fix t assume "t \<in> set (rmatch n (Star a) s)"
    with unfold consider "t = s"
      | x where "x \<in> set (rmatch n a s)" "length x < length s" "t \<in> set (rmatch n (Star a) x)"
      by auto
    then show "t \<in> {t. \<exists>u. s = u @ t \<and> lang (Star a) u}"
    proof cases
      case 1
      then show ?thesis by (auto intro: star_nil)
    next
      case 2
      from 2(1) A obtain u where u: "s = u @ x" "lang a u" by auto
      with 2(2) have "u \<noteq> []" by auto
      from 2(3) B [OF 2(1) 2(2)] obtain v where v: "x = v @ t" "star_of (lang a) v" by auto
      from u v \<open>u \<noteq> []\<close> have "s = (u @ v) @ t \<and> star_of (lang a) (u @ v)"
        by (auto intro: star_step)
      then show ?thesis by auto
    qed
  next
    fix t assume "t \<in> {t. \<exists>u. s = u @ t \<and> lang (Star a) u}"
    then obtain u where s: "s = u @ t" and st: "star_of (lang a) u" by auto
    from st show "t \<in> set (rmatch n (Star a) s)"
    proof cases
      case star_nil
      with s unfold show ?thesis by simp
    next
      case (star_step u1 v)
      with s A have x: "v @ t \<in> set (rmatch n a s)" by auto
      from star_step s have len: "length (v @ t) < length s" by auto
      from B [OF x len] star_step have "t \<in> set (rmatch n (Star a) (v @ t))" by auto
      with x len unfold show ?thesis by blast
    qed
  qed
qed

lemma set_rmatch_Seq:
  "set (rmatch n (Seq a b) s) = (\<Union>t \<in> set (rmatch n a s). set (rmatch n b t))"
  by simp

lemma lower_dot: "lower c = lower (CHR ''.'') \<longleftrightarrow> c = CHR ''.''"
proof -
  have l: "lower (CHR ''.'') = CHR ''.''" by (simp add: lower_def is_upper_def)
  show ?thesis
  proof (cases "is_upper c")
    case True
    then have "of_char (lower c) \<noteq> (46::nat)" by (simp add: lower_def is_upper_def)
    moreover from True have "of_char c \<noteq> (46::nat)" by (simp add: is_upper_def)
    ultimately show ?thesis using l by auto
  next
    case False
    then show ?thesis using l by (simp add: lower_def)
  qed
qed

lemma lang_Seq_Lit:
  "lang (Seq (Lit l) b) u \<longleftrightarrow> (\<exists>c w. u = c # w \<and> lower c = lower l \<and> lang b w)"
proof
  assume "lang (Seq (Lit l) b) u"
  then obtain v w c where "u = v @ w" "v = [c]" "lower c = lower l" "lang b w" by auto
  then show "\<exists>c w. u = c # w \<and> lower c = lower l \<and> lang b w" by simp
next
  assume "\<exists>c w. u = c # w \<and> lower c = lower l \<and> lang b w"
  then obtain c w where "u = [c] @ w" "lower c = lower l" "lang b w" by auto
  then show "lang (Seq (Lit l) b) u" unfolding lang.simps by blast
qed

lemma lang_Seq_Class:
  "lang (Seq (Class cs) b) u \<longleftrightarrow> (\<exists>c w. u = c # w \<and> in_class cs c \<and> lang b w)"
proof
  assume "lang (Seq (Class cs) b) u"
  then obtain v w c where "u = v @ w" "v = [c]" "in_class cs c" "lang b w" by auto
  then show "\<exists>c w. u = c # w \<and> in_class cs c \<and> lang b w" by simp
next
  assume "\<exists>c w. u = c # w \<and> in_class cs c \<and> lang b w"
  then obtain c w where "u = [c] @ w" "in_class cs c" "lang b w" by auto
  then show "lang (Seq (Class cs) b) u" unfolding lang.simps by blast
qed

lemma lang_lits_Cons:
  "lang (lits (l # w)) u \<longleftrightarrow> (\<exists>c v. u = c # v \<and> lower c = lower l \<and> lang (lits w) v)"
proof (cases w)
  case Nil
  then show ?thesis by (auto simp: lits_def)
next
  case (Cons l' w')
  then have "lits (l # w) = Seq (Lit l) (lits w)" by (simp add: lits_def)
  then show ?thesis by (simp only: lang_Seq_Lit)
qed

lemma lang_lits: "lang (lits w) u \<longleftrightarrow> map lower u = map lower w"
proof (induction w arbitrary: u)
  case Nil
  then show ?case by (simp add: lits_def)
next
  case (Cons l w)
  show ?case unfolding lang_lits_Cons Cons.IH by (cases u) auto
qed


lemma star_of_class: "star_of (lang (Class cs)) u \<longleftrightarrow> list_all (in_class cs) u"
proof
  assume "star_of (lang (Class cs)) u"
  then show "list_all (in_class cs) u"
    by induction auto
next
  assume "list_all (in_class cs) u"
  then show "star_of (lang (Class cs)) u"
  proof (induction u)
    case Nil
    show ?case by (rule star_nil)
  next
    case (Cons c u)
    from Cons.prems have c: "in_class cs c" and u: "list_all (in_class cs) u" by simp_all
    from c have "lang (Class cs) [c]" by simp
    moreover have "[c] \<noteq> []" by simp
    moreover note Cons.IH [OF u]
    ultimately have "star_of (lang (Class cs)) ([c] @ u)" by (rule star_step)
    then show ?case by (simp del: lang.simps)
  qed
qed

lemma lang_Plus_class:
  "lang (Plus (Class cs)) u \<longleftrightarrow> u \<noteq> [] \<and> list_all (in_class cs) u"
  unfolding Plus_def lang_Seq_Class by (cases u) (simp_all add: star_of_class)

lemma star_of_concat:
  "star_of Q u \<longleftrightarrow> (\<exists>gs. u = concat gs \<and> list_all (\<lambda>g. Q g \<and> g \<noteq> []) gs)"
proof
  assume "star_of Q u"
  then show "\<exists>gs. u = concat gs \<and> list_all (\<lambda>g. Q g \<and> g \<noteq> []) gs"
  proof induction
    case star_nil
    show ?case by (rule exI [of _ "[]"]) simp
  next
    case (star_step u v)
    then obtain gs where "v = concat gs" "list_all (\<lambda>g. Q g \<and> g \<noteq> []) gs" by blast
    with star_step show ?case by (intro exI [of _ "u # gs"]) simp
  qed
next
  assume "\<exists>gs. u = concat gs \<and> list_all (\<lambda>g. Q g \<and> g \<noteq> []) gs"
  then obtain gs where "u = concat gs" "list_all (\<lambda>g. Q g \<and> g \<noteq> []) gs" by blast
  then show "star_of Q u"
  proof (induction gs arbitrary: u)
    case Nil
    then show ?case by (simp add: star_nil)
  next
    case (Cons g gs)
    then have "Q g" "g \<noteq> []" "star_of Q (concat gs)" by simp_all
    then have "star_of Q (g @ concat gs)" by (rule star_step)
    with Cons.prems show ?case by simp
  qed
qed

lemma lang_dot_group:
  "lang (Seq (Lit (CHR ''.'')) (Plus (Class cs))) g \<longleftrightarrow>
     (\<exists>b. g = CHR ''.'' # b \<and> b \<noteq> [] \<and> list_all (in_class cs) b)"
  unfolding lang_Seq_Lit lang_Plus_class lower_dot by blast

lemma dot_groups_map:
  "list_all (\<lambda>g. lang (Seq (Lit (CHR ''.'')) (Plus (Class cs))) g) gs \<longleftrightarrow>
     (\<exists>bs. gs = map (\<lambda>b. CHR ''.'' # b) bs \<and>
        list_all (\<lambda>b. b \<noteq> [] \<and> list_all (in_class cs) b) bs)"
proof (induction gs)
  case Nil
  show ?case by simp
next
  case (Cons g gs)
  show ?case
  proof
    assume "list_all (\<lambda>g. lang (Seq (Lit (CHR ''.'')) (Plus (Class cs))) g) (g # gs)"
    then have g: "lang (Seq (Lit (CHR ''.'')) (Plus (Class cs))) g"
      and gs: "list_all (\<lambda>g. lang (Seq (Lit (CHR ''.'')) (Plus (Class cs))) g) gs" by simp_all
    from g obtain b where b: "g = CHR ''.'' # b" "b \<noteq> []" "list_all (in_class cs) b"
      unfolding lang_dot_group by blast
    from gs Cons.IH have "\<exists>bs. gs = map (\<lambda>b. CHR ''.'' # b) bs \<and>
        list_all (\<lambda>b. b \<noteq> [] \<and> list_all (in_class cs) b) bs" by simp
    then obtain bs where bs: "gs = map (\<lambda>b. CHR ''.'' # b) bs"
      "list_all (\<lambda>b. b \<noteq> [] \<and> list_all (in_class cs) b) bs" by (elim exE conjE)
    from b bs show "\<exists>bs. g # gs = map (\<lambda>b. CHR ''.'' # b) bs \<and>
        list_all (\<lambda>b. b \<noteq> [] \<and> list_all (in_class cs) b) bs"
      by (intro exI [of _ "b # bs"]) simp
  next
    assume "\<exists>bs. g # gs = map (\<lambda>b. CHR ''.'' # b) bs \<and>
        list_all (\<lambda>b. b \<noteq> [] \<and> list_all (in_class cs) b) bs"
    then obtain bs where bs: "g # gs = map (\<lambda>b. CHR ''.'' # b) bs"
      "list_all (\<lambda>b. b \<noteq> [] \<and> list_all (in_class cs) b) bs" by (elim exE conjE)
    then obtain b bs' where c: "bs = b # bs'" by (cases bs) auto
    with bs have "lang (Seq (Lit (CHR ''.'')) (Plus (Class cs))) g"
      unfolding lang_dot_group by simp
    moreover from bs c Cons.IH
    have "list_all (\<lambda>g. lang (Seq (Lit (CHR ''.'')) (Plus (Class cs))) g) gs" by auto
    ultimately show "list_all (\<lambda>g. lang (Seq (Lit (CHR ''.'')) (Plus (Class cs))) g) (g # gs)"
      by simp
  qed
qed

lemma lang_dot_groups:
  "lang (Plus (Seq (Lit (CHR ''.'')) (Plus (Class cs)))) u \<longleftrightarrow>
     (\<exists>bs. bs \<noteq> [] \<and> u = concat (map (\<lambda>b. CHR ''.'' # b) bs) \<and>
        list_all (\<lambda>b. b \<noteq> [] \<and> list_all (in_class cs) b) bs)"
  (is "?L \<longleftrightarrow> ?R")
proof
  let ?G = "Seq (Lit (CHR ''.'')) (Plus (Class cs))"
  assume ?L
  then obtain g rest where u: "u = g @ rest" and g: "lang ?G g" and r: "star_of (lang ?G) rest"
    unfolding Plus_def [of ?G] lang.simps by blast
  from r obtain gs where rest: "rest = concat gs" and gs: "list_all (\<lambda>g. lang ?G g \<and> g \<noteq> []) gs"
    unfolding star_of_concat by blast
  from g gs have "list_all (\<lambda>g. lang ?G g) (g # gs)" by (simp add: list_all_iff)
  then obtain bs where bs: "g # gs = map (\<lambda>b. CHR ''.'' # b) bs"
    "list_all (\<lambda>b. b \<noteq> [] \<and> list_all (in_class cs) b) bs"
    unfolding dot_groups_map by (elim exE conjE)
  then have "bs \<noteq> []" by auto
  moreover from u rest have "u = concat (g # gs)" by simp
  ultimately show ?R using bs by auto
next
  let ?G = "Seq (Lit (CHR ''.'')) (Plus (Class cs))"
  assume ?R
  then obtain bs where ne: "bs \<noteq> []" and u: "u = concat (map (\<lambda>b. CHR ''.'' # b) bs)"
    and all: "list_all (\<lambda>b. b \<noteq> [] \<and> list_all (in_class cs) b) bs" by blast
  from all have gs: "list_all (\<lambda>g. lang ?G g) (map (\<lambda>b. CHR ''.'' # b) bs)"
    unfolding dot_groups_map by blast
  from ne obtain b bs' where bs: "bs = b # bs'" by (cases bs) auto
  from gs bs have g: "lang ?G (CHR ''.'' # b)"
    and "list_all (\<lambda>g. lang ?G g \<and> g \<noteq> []) (map (\<lambda>b. CHR ''.'' # b) bs')"
    by (simp_all add: list_all_iff)
  then have "star_of (lang ?G) (concat (map (\<lambda>b. CHR ''.'' # b) bs'))"
    unfolding star_of_concat by blast
  with g have "\<exists>v w. u = v @ w \<and> lang ?G v \<and> star_of (lang ?G) w"
    using u bs by (intro exI [of _ "CHR ''.'' # b"] exI [of _ "concat (map (\<lambda>b. CHR ''.'' # b) bs')"]) simp
  then show ?L unfolding Plus_def [of ?G] lang.simps .
qed


lemma lower_literals:
  "map lower ''http'' = ''http''" "map lower ''://'' = ''://''" "lower (CHR ''s'') = CHR ''s''"
  by (simp_all add: lower_def is_upper_def)

lemma lang_scheme_group:
  "lang scheme_group u \<longleftrightarrow> map lower u = ''http://'' \<or> map lower u = ''https://''"
  (is "?L \<longleftrightarrow> ?R")
proof
  assume ?L
  then have "\<exists>v w. u = v @ w \<and> lang (lits ''http'') v \<and>
      (\<exists>x y. w = x @ y \<and> (x = [] \<or> lang (Lit (CHR ''s'')) x) \<and> lang (lits ''://'') y)"
    unfolding scheme_group_def by (simp only: seqs.simps lang.simps)
  then obtain v w x y where u: "u = v @ w" "w = x @ y" and v: "lang (lits ''http'') v"
    and x: "x = [] \<or> lang (Lit (CHR ''s'')) x" and y: "lang (lits ''://'') y"
    by (elim exE conjE)
  from v y have vy: "map lower v = ''http''" "map lower y = ''://''"
    unfolding lang_lits lower_literals by simp_all
  from x have x': "map lower x = [] \<or> map lower x = ''s''"
    by (auto simp: lower_literals)
  from u have "map lower u = map lower v @ map lower x @ map lower y" by simp
  then have "map lower u = ''http'' @ map lower x @ ''://''" by (simp only: vy)
  with x' show ?R by (elim disjE) simp_all
next
  assume r: ?R
  have tk: "map lower (take 4 u) = take 4 (map lower u)"
    and dr4: "map lower (drop 4 u) = drop 4 (map lower u)"
    and dr5: "map lower (drop 5 u) = drop 5 (map lower u)"
    by (simp_all add: take_map drop_map)
  have "\<exists>v x y. u = v @ x @ y \<and> map lower v = ''http'' \<and>
          (x = [] \<or> (\<exists>c. x = [c] \<and> lower c = CHR ''s'')) \<and> map lower y = ''://''"
  proof (cases "map lower u = ''http://''")
    case True
    have "u = take 4 u @ [] @ drop 4 u" by simp
    moreover from True tk dr4 have "map lower (take 4 u) = ''http''" "map lower (drop 4 u) = ''://''"
      by simp_all
    ultimately show ?thesis
      by (intro exI [of _ "take 4 u"] exI [of _ "[]"] exI [of _ "drop 4 u"] conjI disjI1) simp_all
  next
    case False
    with r have e: "map lower u = ''https://''" by simp
    then have "length (map lower u) = length ''https://''" by (rule arg_cong)
    then have len: "length u = 8" by simp
    with id_take_nth_drop [of 4 u] have "u = take 4 u @ u ! 4 # drop (Suc 4) u" by simp
    then have "u = take 4 u @ [u ! 4] @ drop 5 u" by simp
    moreover from e tk dr5 have "map lower (take 4 u) = ''http''" "map lower (drop 5 u) = ''://''"
      by simp_all
    moreover have "lower (u ! 4) = CHR ''s''"
    proof -
      from len have "map lower u ! 4 = lower (u ! 4)" by simp
      with e show ?thesis by simp
    qed
    ultimately show ?thesis
      by (intro exI [of _ "take 4 u"] exI [of _ "[u ! 4]"] exI [of _ "drop 5 u"] conjI disjI2) simp_all
  qed
  then obtain v x y where u: "u = v @ x @ y" and v: "map lower v = ''http''"
    and x: "x = [] \<or> (\<exists>c. x = [c] \<and> lower c = CHR ''s'')" and y: "map lower y = ''://''"
    by (elim exE conjE)
  from v y have lv: "lang (lits ''http'') v" and ly: "lang (lits ''://'') y"
    unfolding lang_lits lower_literals by simp_all
  from x have lx: "lang (Opt (Lit (CHR ''s''))) x" by (auto simp: lower_literals)
  from lx ly have "lang (Seq (Opt (Lit (CHR ''s''))) (lits ''://'')) (x @ y)"
    unfolding lang.simps(6) by (intro exI [of _ x] exI [of _ y] conjI) (rule refl)
  with lv u have "lang (Seq (lits ''http'') (Seq (Opt (Lit (CHR ''s''))) (lits ''://''))) u"
    unfolding lang.simps(6) [of "lits ''http''"] by (intro exI [of _ v] exI [of _ "x @ y"] conjI)
  then show ?L unfolding scheme_group_def by (simp only: seqs.simps)
qed


lemma lang_domain:
  "(\<exists>v w. d = v @ w \<and> lang (Plus (Class domain_class)) v \<and>
       lang (Plus (Seq (Lit (CHR ''.'')) (Plus (Class domain_class)))) w) \<longleftrightarrow> domain_like d"
  (is "?L \<longleftrightarrow> _")
proof
  assume ?L
  then have "\<exists>v w. d = v @ w \<and> (v \<noteq> [] \<and> list_all (in_class domain_class) v) \<and>
      (\<exists>bs. bs \<noteq> [] \<and> w = concat (map (\<lambda>b. CHR ''.'' # b) bs) \<and>
         list_all (\<lambda>b. b \<noteq> [] \<and> list_all (in_class domain_class) b) bs)"
    unfolding lang_Plus_class lang_dot_groups .
  then obtain v w bs where "d = v @ w" "v \<noteq> []" "list_all (in_class domain_class) v" "bs \<noteq> []"
    "w = concat (map (\<lambda>b. CHR ''.'' # b) bs)"
    "list_all (\<lambda>b. b \<noteq> [] \<and> list_all (in_class domain_class) b) bs"
    by (elim exE conjE)
  then show "domain_like d"
    unfolding domain_like_def by (intro exI [of _ v] exI [of _ bs] conjI) simp_all
next
  assume "domain_like d"
  then obtain a bs where "d = a @ concat (map (\<lambda>b. CHR ''.'' # b) bs)" "a \<noteq> []" "bs \<noteq> []"
    "list_all (in_class domain_class) a"
    "list_all (\<lambda>b. b \<noteq> [] \<and> list_all (in_class domain_class) b) bs"
    unfolding domain_like_def by (elim exE conjE)
  then have "\<exists>v w. d = v @ w \<and> (v \<noteq> [] \<and> list_all (in_class domain_class) v) \<and>
      (\<exists>bs. bs \<noteq> [] \<and> w = concat (map (\<lambda>b. CHR ''.'' # b) bs) \<and>
         list_all (\<lambda>b. b \<noteq> [] \<and> list_all (in_class domain_class) b) bs)"
    by (intro exI [of _ a] exI [of _ "concat (map (\<lambda>b. CHR ''.'' # b) bs)"] exI [of _ bs] conjI)
       simp_all
  then show ?L unfolding lang_Plus_class lang_dot_groups .
qed

lemma lang_body: "lang body u \<longleftrightarrow> spec_plausible_url u"
proof -
  let ?P1 = "Plus (Class domain_class)"
  let ?P2 = "Plus (Seq (Lit (CHR ''.'')) (Plus (Class domain_class)))"
  let ?S = "Star (Class path_class)"
  have "lang body u \<longleftrightarrow>
      (\<exists>sc w. u = sc @ w \<and> lang scheme_group sc \<and>
         (\<exists>v w'. w = v @ w' \<and> lang ?P1 v \<and> (\<exists>x r. w' = x @ r \<and> lang ?P2 x \<and> lang ?S r)))"
    unfolding body_def by (simp only: seqs.simps lang.simps(6))
  also have "\<dots> \<longleftrightarrow>
      (\<exists>sc dom r. u = sc @ dom @ r \<and> lang scheme_group sc \<and>
         (\<exists>v x. dom = v @ x \<and> lang ?P1 v \<and> lang ?P2 x) \<and> lang ?S r)"
    (is "?A \<longleftrightarrow> ?B")
  proof
    assume ?A
    then obtain sc w v w' x r where "u = sc @ w" "lang scheme_group sc" "w = v @ w'" "lang ?P1 v"
      "w' = x @ r" "lang ?P2 x" "lang ?S r"
      by (elim exE conjE)
    then show ?B
      by (intro exI [of _ sc] exI [of _ "v @ x"] exI [of _ r] conjI exI [of _ v] exI [of _ x])
         (simp_all del: lang.simps)
  next
    assume ?B
    then obtain sc dom r v x where "u = sc @ dom @ r" "lang scheme_group sc" "dom = v @ x"
      "lang ?P1 v" "lang ?P2 x" "lang ?S r"
      by (elim exE conjE)
    then show ?A
      by (intro exI [of _ sc] exI [of _ "v @ x @ r"] exI [of _ v] exI [of _ "x @ r"] conjI
            exI [of _ x] exI [of _ r])
         (simp_all del: lang.simps)
  qed
  also have "\<dots> \<longleftrightarrow> spec_plausible_url u"
    unfolding lang_domain lang_scheme_group lang.simps(8) star_of_class spec_plausible_url_def ..
  finally show ?thesis .
qed

lemma anchor_free_body: "anchor_free body"
  by (simp add: body_def scheme_group_def lits_def Plus_def)

lemma rmatch_Seq_filter:
  assumes "\<And>t. set (rmatch n X' t) = {t' \<in> set (rmatch n X t). E t'}"
  shows "set (rmatch n (Seq a X') s) = {t' \<in> set (rmatch n (Seq a X) s). E t'}"
  unfolding set_rmatch_Seq assms by auto

lemma rmatch_Seq_Eol:
  "set (rmatch n (Seq a Eol) s) = {t \<in> set (rmatch n a s). t = [] \<or> t = [newline]}"
  unfolding set_rmatch_Seq by auto

lemma rmatch_pattern:
  "set (rmatch (length s) pattern s) =
     {t \<in> set (rmatch (length s) body s). t = [] \<or> t = [newline]}"
proof -
  let ?n = "length s"
  let ?P1 = "Plus (Class domain_class)"
  let ?P2 = "Plus (Seq (Lit (CHR ''.'')) (Plus (Class domain_class)))"
  let ?S = "Star (Class path_class)"
  have p: "pattern = Seq Bol (Seq scheme_group (Seq ?P1 (Seq ?P2 (Seq ?S Eol))))"
    by (simp add: pattern_def scheme_group_def)
  have b: "body = Seq scheme_group (Seq ?P1 (Seq ?P2 ?S))"
    by (simp add: body_def)
  have "set (rmatch ?n pattern s) = set (rmatch ?n (Seq scheme_group (Seq ?P1 (Seq ?P2 (Seq ?S Eol)))) s)"
    unfolding p by (simp del: rmatch.simps add: rmatch.simps(4,6))
  also have "\<dots> = {t \<in> set (rmatch ?n (Seq scheme_group (Seq ?P1 (Seq ?P2 ?S))) s). t = [] \<or> t = [newline]}"
    by (intro rmatch_Seq_filter rmatch_Seq_Eol)
  finally show ?thesis unfolding b .
qed

text \<open>
  What the source accepts, exactly: the strings of the specified shape, and those
  strings followed by one newline.
\<close>

lemma is_plausible_url_iff:
  "is_plausible_url s \<longleftrightarrow>
     spec_plausible_url s \<or> (\<exists>u. s = u @ [newline] \<and> spec_plausible_url u)"
proof -
  have "is_plausible_url s \<longleftrightarrow> set (rmatch (length s) pattern s) \<noteq> {}"
    by (simp add: is_plausible_url_def re_match_def)
  also have "\<dots> \<longleftrightarrow> (\<exists>t. t \<in> set (rmatch (length s) body s) \<and> (t = [] \<or> t = [newline]))"
    unfolding rmatch_pattern by auto
  also have "\<dots> \<longleftrightarrow> (\<exists>t u. s = u @ t \<and> spec_plausible_url u \<and> (t = [] \<or> t = [newline]))"
    unfolding rmatch_lang [OF anchor_free_body] lang_body by auto
  also have "\<dots> \<longleftrightarrow> spec_plausible_url s \<or> (\<exists>u. s = u @ [newline] \<and> spec_plausible_url u)"
    by auto
  finally show ?thesis .
qed

section \<open>The plausibility check\<close>

text \<open>
  Claim C5: \<open>is_plausible_url\<close> returns true exactly for the strings of the shape
  \<^verbatim>\<open>^https?://[\w.-]+(?:\.[\w.-]+)+\<close> followed by zero or more characters of the safe
  set, matched case-insensitively.  The source ends the pattern with \<^verbatim>\<open>$\<close>, which
  also holds just before a final newline: \<^verbatim>\<open>http://a.b\<close> followed by a newline is
  accepted, although the newline is not in the safe set and the string has not that
  shape, while \<^verbatim>\<open>http://a.b\<close> itself has it.
\<close>

theorem is_plausible_url_trailing_newline:
  "is_plausible_url (''http://a.b'' @ [newline]) \<and>
   \<not> spec_plausible_url (''http://a.b'' @ [newline]) \<and>
   spec_plausible_url ''http://a.b''"
proof (intro conjI)
  show "is_plausible_url (''http://a.b'' @ [newline])" by code_simp
  show "\<not> spec_plausible_url (''http://a.b'' @ [newline])"
    using spec_plausible_last [of "''http://a.b'' @ [newline]"] by auto
  have "domain_like ''a.b''"
    unfolding domain_like_def
    by (rule exI [of _ "''a''"], rule exI [of _ "[''b'']"])
       (simp add: in_class_def domain_class_def is_word_def)
  then show "spec_plausible_url ''http://a.b''"
    unfolding spec_plausible_url_def
    by (intro exI [of _ "''http://''"] exI [of _ "''a.b''"] exI [of _ "[]"])
       (simp add: lower_def is_upper_def)
qed

section \<open>The image normalizer\<close>


section \<open>Generation without a caption\<close>

text \<open>
  Claim C4: a successful call with no caption (\<^verbatim>\<open>caption = None\<close>) saves exactly the
  normalized output of the encoder at the output path, and that image has the
  dimensions of the encoder's own output: no canvas growth, no compositing.
\<close>

theorem generate_qr_no_caption:
  assumes "generate_qr L url p b bd None fs = (Inr q, fs')"
  shows "\<exists>w. qr_encode L url b bd = Inr w \<and> q = p \<and>
             files fs' = (files fs)(p \<mapsto> ensure_pil_image L w) \<and>
             im_size (ensure_pil_image L w) = im_size (as_image w)"
  using generate_qr_plain_result [OF assms] by (simp add: ensure_pil_image_size)

theorem generate_qr_no_caption_witness:
  "\<exists>w. qr_encode example_lib ''https://example.com/a'' 10 4 = Inr w \<and>
       files (snd (generate_qr example_lib ''https://example.com/a'' (Path ''qrs/qr.png'') 10 4 None empty_fs))
         = (files empty_fs)(Path ''qrs/qr.png'' \<mapsto> ensure_pil_image example_lib w) \<and>
       im_size (ensure_pil_image example_lib w) = (330, 330)"
proof -
  let ?run = "generate_qr example_lib ''https://example.com/a'' (Path ''qrs/qr.png'') 10 4 None empty_fs"
  have "?run = (Inr (Path ''qrs/qr.png''), snd ?run)"
    using example_run_plain [of empty_fs] by (simp add: prod_eq_iff)
  from generate_qr_no_caption [OF this]
  show ?thesis by (auto simp: example_lib_def example_encode_def)
qed

text \<open>
  Claim C8: generation without a caption is deterministic.  Two successful runs with
  the same url, box size and border save the same image (dimensions and pixels) at the
  output path, whatever the filesystem each run starts from; the encoder is a function
  of its parameters.
\<close>

theorem generate_qr_deterministic:
  assumes "generate_qr L url p b bd None fsA = (Inr qa, fsA')"
    and "generate_qr L url p b bd None fsB = (Inr qb, fsB')"
  shows "qa = qb \<and> files fsA' p = files fsB' p \<and> files fsA' p \<noteq> None"
  using generate_qr_plain_result [OF assms(1)] generate_qr_plain_result [OF assms(2)] by auto

text \<open>Two successive runs: the second starts from the filesystem the first left.\<close>

theorem generate_qr_deterministic_witness:
  "files (snd (generate_qr example_lib ''https://example.com/a'' (Path ''qrs/qr.png'') 10 4 None empty_fs))
     (Path ''qrs/qr.png'') =
   files (snd (generate_qr example_lib ''https://example.com/a'' (Path ''qrs/qr.png'') 10 4 None
     (snd (generate_qr example_lib ''https://example.com/a'' (Path ''qrs/qr.png'') 10 4 None empty_fs))))
     (Path ''qrs/qr.png'') \<and>
   files (snd (generate_qr example_lib ''https://example.com/a'' (Path ''qrs/qr.png'') 10 4 None empty_fs))
     (Path ''qrs/qr.png'') \<noteq> None"
proof -
  let ?gen = "generate_qr example_lib ''https://example.com/a'' (Path ''qrs/qr.png'') 10 4 None"
  have r1: "?gen empty_fs = (Inr (Path ''qrs/qr.png''), snd (?gen empty_fs))"
    using example_run_plain [of empty_fs] by (simp add: prod_eq_iff)
  have r2: "?gen (snd (?gen empty_fs)) = (Inr (Path ''qrs/qr.png''), snd (?gen (snd (?gen empty_fs))))"
    using example_run_plain [of "snd (?gen empty_fs)"] by (simp add: prod_eq_iff)
  from generate_qr_deterministic [OF r1 r2] show ?thesis by blast
qed

section \<open>Generation with a caption\<close>

text \<open>
  Claim C3: a successful call with a non-empty caption saves an image as wide as the
  matrix image and higher by the caption band and two margins: height + 40 + 2 * 16.
\<close>

theorem generate_qr_caption_size:
  assumes "generate_qr L url p b bd (Some cap) fs = (Inr q, fs')" and "cap \<noteq> []"
  shows "\<exists>w im. qr_encode L url b bd = Inr w \<and> q = p \<and> files fs' p = Some im \<and>
             fst (im_size im) = fst (im_size (ensure_pil_image L w)) \<and>
             snd (im_size im) = snd (im_size (ensure_pil_image L w)) + 40 + 2 * 16"
proof (cases "qr_encode L url b bd")
  case (Inl e)
  with assms show ?thesis by (simp add: generate_qr_def)
next
  case (Inr w)
  show ?thesis
  proof (cases "compose_caption L (ensure_pil_image L w) cap")
    case (Inl e)
    with assms Inr show ?thesis by (simp add: generate_qr_def truthy_def)
  next
    case inr: (Inr canvas)
    with assms Inr have "save_to L fs p canvas = (Inr q, fs')"
      by (simp add: generate_qr_def truthy_def)
    from save_to_result [OF this] compose_caption_size [OF inr] Inr show ?thesis
      by simp
  qed
qed

theorem generate_qr_caption_size_witness:
  "''hello'' \<noteq> [] \<and>
   (\<exists>w im. qr_encode example_lib ''https://example.com/a'' 10 4 = Inr w \<and>
       files (snd (generate_qr example_lib ''https://example.com/a'' (Path ''qrs/qr.png'') 10 4
                     (Some ''hello'') empty_fs)) (Path ''qrs/qr.png'') = Some im \<and>
       im_size (ensure_pil_image example_lib w) = (330, 330) \<and> im_size im = (330, 402))"
proof -
  let ?run = "generate_qr example_lib ''https://example.com/a'' (Path ''qrs/qr.png'') 10 4
                (Some ''hello'') empty_fs"
  have run: "?run = (Inr (Path ''qrs/qr.png''), snd ?run)"
    using example_run_caption [of empty_fs] by (simp add: prod_eq_iff)
  have ne: "''hello'' \<noteq> []" by simp
  from generate_qr_caption_size [OF run ne]
  show ?thesis
    by (auto simp: example_lib_def example_encode_def ensure_pil_image_def convert_def prod_eq_iff)
qed

text \<open>
  Claim C1, as the specification states it: with the caption \<^verbatim>\<open>""\<close> a caption band is
  composited and the saved image has the taller canvas.  The source tests
  \<^verbatim>\<open>if not caption\<close>, which is true of the empty string.  At a plausible URL whose
  matrix image is 330 by 330, the image saved for the caption \<^verbatim>\<open>""\<close> is 330 by 330 and
  not 330 by 402.
\<close>

theorem generate_qr_empty_caption_counterexample:
  "is_plausible_url ''https://example.com/a'' \<and>
   map_sum exn_str (im_size \<circ> ensure_pil_image example_lib)
     (qr_encode example_lib ''https://example.com/a'' 10 4) = Inr (330, 330) \<and>
   fst (generate_qr example_lib ''https://example.com/a'' (Path ''qrs/qr.png'') 10 4 (Some []) empty_fs)
     = Inr (Path ''qrs/qr.png'') \<and>
   map_option im_size
     (files (snd (generate_qr example_lib ''https://example.com/a'' (Path ''qrs/qr.png'') 10 4
                    (Some []) empty_fs)) (Path ''qrs/qr.png'')) = Some (330, 330) \<and>
   map_option im_size
     (files (snd (generate_qr example_lib ''https://example.com/a'' (Path ''qrs/qr.png'') 10 4
                    (Some []) empty_fs)) (Path ''qrs/qr.png'')) \<noteq> Some (330, 330 + 72)"
  using example_url_plausible by (simp add: run_defs)

text \<open>
  Claim C1, amended: for every URL, a call with the caption \<^verbatim>\<open>""\<close> does exactly what
  the call with no caption does: same result, same filesystem, no caption band.
\<close>

theorem generate_qr_empty_caption:
  "generate_qr L url p b bd (Some []) fs = generate_qr L url p b bd None fs"
  by (simp add: generate_qr_def truthy_def)



section \<open>Generation and the filesystem\<close>

text \<open>
  Claim C10: \<open>generate_qr\<close> touches the filesystem only after encoding, normalization
  and compositing have succeeded.  When the encoder raises, or the compositor raises
  for a non-empty caption, the call ends with that exception and the filesystem it was
  given; and a call that ends with another filesystem has created the parent
  directories of the output path and then either failed to save or saved there.
\<close>

theorem generate_qr_filesystem_last:
  "(qr_encode L url b bd = Inl e \<longrightarrow> generate_qr L url p b bd cap fs = (Inl e, fs)) \<and>
   (qr_encode L url b bd = Inr w \<and> cap = Some t \<and> t \<noteq> [] \<and>
    compose_caption L (ensure_pil_image L w) t = Inl e \<longrightarrow>
      generate_qr L url p b bd cap fs = (Inl e, fs)) \<and>
   (generate_qr L url p b bd cap fs = (r, fs') \<and> fs' \<noteq> fs \<longrightarrow>
      (\<exists>fs1. mkdir_parents L fs (parent p) = Inr fs1 \<and>
         (fs' = fs1 \<or> (\<exists>im. save L fs1 p im = Inr fs'))))"
proof (intro conjI impI)
  assume "qr_encode L url b bd = Inl e"
  then show "generate_qr L url p b bd cap fs = (Inl e, fs)"
    by (simp add: generate_qr_def)
next
  assume "qr_encode L url b bd = Inr w \<and> cap = Some t \<and> t \<noteq> [] \<and>
    compose_caption L (ensure_pil_image L w) t = Inl e"
  then show "generate_qr L url p b bd cap fs = (Inl e, fs)"
    by (simp add: generate_qr_def truthy_def)
next
  assume a: "generate_qr L url p b bd cap fs = (r, fs') \<and> fs' \<noteq> fs"
  have st: "\<exists>fs1. mkdir_parents L fs (parent p) = Inr fs1 \<and>
         (fs' = fs1 \<or> (\<exists>im. save L fs1 p im = Inr fs'))"
    if "save_to L fs p im = (r, fs')" for im
    using that a by (auto simp: save_to_def split: sum.splits)
  from a show "\<exists>fs1. mkdir_parents L fs (parent p) = Inr fs1 \<and>
         (fs' = fs1 \<or> (\<exists>im. save L fs1 p im = Inr fs'))"
    by (auto simp: generate_qr_def Let_def split: sum.splits option.splits if_splits dest: st)
qed

text \<open>
  An encoder that rejects box size 0, a drawing primitive that raises, and a run that
  succeeds and changes the filesystem.
\<close>

theorem generate_qr_filesystem_last_witness:
  "qr_encode example_lib ''https://example.com/a'' 0 4 = Inl (Exn ''ValueError'' ''Invalid box size'') \<and>
   generate_qr example_lib ''https://example.com/a'' (Path ''qrs/qr.png'') 0 4 (Some ''hello'') empty_fs
     = (Inl (Exn ''ValueError'' ''Invalid box size''), empty_fs) \<and>
   qr_encode failing_draw_lib ''https://example.com/a'' 10 4 = Inr (PilImage example_matrix) \<and>
   compose_caption failing_draw_lib (ensure_pil_image failing_draw_lib (PilImage example_matrix)) ''hello''
     = Inl (Exn ''ValueError'' ''cannot draw'') \<and>
   generate_qr failing_draw_lib ''https://example.com/a'' (Path ''qrs/qr.png'') 10 4 (Some ''hello'') empty_fs
     = (Inl (Exn ''ValueError'' ''cannot draw''), empty_fs) \<and>
   snd (generate_qr example_lib ''https://example.com/a'' (Path ''qrs/qr.png'') 10 4 None empty_fs)
     \<noteq> empty_fs \<and>
   (\<exists>fs1. mkdir_parents example_lib empty_fs (parent (Path ''qrs/qr.png'')) = Inr fs1 \<and>
      (snd (generate_qr example_lib ''https://example.com/a'' (Path ''qrs/qr.png'') 10 4 None empty_fs) = fs1 \<or>
       (\<exists>im. save example_lib fs1 (Path ''qrs/qr.png'') im =
          Inr (snd (generate_qr example_lib ''https://example.com/a'' (Path ''qrs/qr.png'') 10 4 None
                      empty_fs)))))"
proof -
  let ?u = "''https://example.com/a''" and ?p = "Path ''qrs/qr.png''"
  let ?bad = "Exn ''ValueError'' ''Invalid box size''" and ?nodraw = "Exn ''ValueError'' ''cannot draw''"
  let ?run = "generate_qr example_lib ?u ?p 10 4 None empty_fs"
  have e1: "qr_encode example_lib ?u 0 4 = Inl ?bad"
    by (simp add: example_lib_def example_encode_def)
  have e2: "qr_encode failing_draw_lib ?u 10 4 = Inr (PilImage example_matrix)"
    by (simp add: failing_draw_lib_def example_lib_def example_encode_matrix)
  have c2: "compose_caption failing_draw_lib (ensure_pil_image failing_draw_lib (PilImage example_matrix))
              ''hello'' = Inl ?nodraw"
    by (simp add: compose_caption_def failing_draw_lib_def example_lib_def Let_def split: prod.splits)
  have "files (snd ?run) ?p \<noteq> files empty_fs ?p"
    by (simp add: run_defs)
  then have ne: "snd ?run \<noteq> empty_fs" by auto
  have r: "?run = (fst ?run, snd ?run)" by simp
  from e1 generate_qr_filesystem_last [where L = example_lib and url = ?u and b = 0 and bd = 4
      and e = ?bad and p = ?p and cap = "Some ''hello''" and fs = empty_fs]
  have g1: "generate_qr example_lib ?u ?p 0 4 (Some ''hello'') empty_fs = (Inl ?bad, empty_fs)"
    by blast
  from e2 c2 generate_qr_filesystem_last [where L = failing_draw_lib and url = ?u and b = 10 and bd = 4
      and e = ?nodraw and p = ?p and cap = "Some ''hello''" and fs = empty_fs
      and w = "PilImage example_matrix" and t = "''hello''"]
  have g2: "generate_qr failing_draw_lib ?u ?p 10 4 (Some ''hello'') empty_fs = (Inl ?nodraw, empty_fs)"
    by simp
  from r ne generate_qr_filesystem_last [where L = example_lib and url = ?u and b = 10 and bd = 4
      and p = ?p and cap = None and fs = empty_fs and r = "fst ?run" and fs' = "snd ?run"]
  have g3: "\<exists>fs1. mkdir_parents example_lib empty_fs (parent ?p) = Inr fs1 \<and>
      (snd ?run = fs1 \<or> (\<exists>im. save example_lib fs1 ?p im = Inr (snd ?run)))"
    by blast
  from e1 g1 e2 c2 g2 ne g3 show ?thesis by blast
qed

section \<open>The command line driver\<close>

text \<open>
  Claim C2, as the specification states it: for a URL that fails the plausibility
  check, \<open>main\<close> prints its diagnostic to the error stream and not to standard output.
  The source calls \<^verbatim>\<open>print\<close> without a \<^verbatim>\<open>file\<close> argument: at
  \<^verbatim>\<open>--url not-a-url\<close> the error stream stays empty and the diagnostic is on standard
  output.
\<close>

theorem main_implausible_url_counterexample:
  "parse_args example_lib [''--url'', ''not-a-url''] = Inr (default_args ''not-a-url'') \<and>
   \<not> is_plausible_url ''not-a-url'' \<and>
   fst (main example_lib [''--url'', ''not-a-url''] world0) = Return 2 \<and>
   stderr (snd (main example_lib [''--url'', ''not-a-url''] world0)) = [] \<and>
   stdout (snd (main example_lib [''--url'', ''not-a-url''] world0)) =
     [''[ERROR] The provided string does not look like a valid http(s) URL: not-a-url'']"
  using not_a_url_implausible
  by (simp add: main_def print_def example_lib_def default_args_def world0_def)

text \<open>
  Claim C2, amended: for every argument vector whose \<^verbatim>\<open>--url\<close> value fails the
  plausibility check, \<open>main\<close> returns 2 and leaves the world as it was but for one
  line added to standard output, the diagnostic that echoes the rejected string: the
  error stream and the filesystem are unchanged, and nothing of the generation is run.
\<close>

theorem main_implausible_url:
  assumes "parse_args L argv = Inr a" and "\<not> is_plausible_url (a_url a)"
  shows "main L argv w =
           (Return 2,
            w\<lparr>stdout := stdout w @
                 [''[ERROR] The provided string does not look like a valid http(s) URL: '' @ a_url a]\<rparr>)"
  using assms by (simp add: main_def print_def)

theorem main_implausible_url_witness:
  "parse_args example_lib [''--url'', ''not-a-url''] = Inr (default_args ''not-a-url'') \<and>
   \<not> is_plausible_url (a_url (default_args ''not-a-url'')) \<and>
   main example_lib [''--url'', ''not-a-url''] world0 =
     (Return 2,
      world0\<lparr>stdout := stdout world0 @
        [''[ERROR] The provided string does not look like a valid http(s) URL: ''
           @ a_url (default_args ''not-a-url'')]\<rparr>)"
proof -
  have p: "parse_args example_lib [''--url'', ''not-a-url''] = Inr (default_args ''not-a-url'')"
    by (simp add: example_lib_def)
  have np: "\<not> is_plausible_url (a_url (default_args ''not-a-url''))"
    using not_a_url_implausible by (simp add: default_args_def)
  from p np main_implausible_url [OF p np, of world0] show ?thesis by simp
qed



end
